theory Spec2Isabelle
  imports Complex_Main "HOL-Library.Word"
begin

unbundle bit_operations_syntax

section \<open>Data model of \<open>main.go\<close>\<close>

text \<open>
  A Go \<open>byte\<close> is an 8-bit word, a Go \<open>string\<close> is a sequence of bytes (\<open>char list\<close>),
  a \<open>[]byte\<close> and a \<open>net.IP\<close> are byte lists (\<open>nil\<close> is the empty list).
\<close>

type_synonym byte = "8 word"
type_synonym IP = "byte list"

text \<open>The struct \<open>pair\<close> of the source.\<close>

record pair =
  Target :: string
  Route :: string
  Hex :: string
  Error :: string

text \<open>
  The source builds its errors with \<open>fmt.Errorf\<close>; each message of the source is one
  constructor: \<open>invalid target CIDR\<close>, \<open>target ip error\<close>, \<open>invalid route IP\<close>,
  \<open>route ip error\<close>, \<open>invalid hex string\<close>, \<open>unexpected end of data\<close>,
  \<open>not enough data for record\<close>; the two messages of \<open>ipToHex\<close> are
  \<open>only IPv4 supported\<close> and \<open>invalid bytes\<close>, which \<open>buildHexString\<close> wraps.
\<close>

datatype error =
    OnlyIPv4Supported
  | InvalidBytes
  | InvalidCIDR
  | TargetIPError error
  | InvalidGateway
  | RouteIPError error
  | InvalidHex
  | TruncatedStream
  | TruncatedRecord

section \<open>Library functions used by the source\<close>

subsection \<open>Slices\<close>

text \<open>\<open>xs[lo:hi]\<close>, used by the source only within bounds.\<close>

definition slice :: "'a list \<Rightarrow> nat \<Rightarrow> nat \<Rightarrow> 'a list" where
  "slice xs lo hi = take (hi - lo) (drop lo xs)"

text \<open>The builtin \<open>copy(dst, src)\<close>: the first \<open>min (len dst) (len src)\<close> elements are overwritten.\<close>

definition copy_bytes :: "'a list \<Rightarrow> 'a list \<Rightarrow> 'a list" where
  "copy_bytes dst src = take (length dst) src @ drop (length src) dst"

text \<open>
  Writing \<open>src\<close> into the array under \<open>xs\<close> from index \<open>k\<close> on: what \<open>append(xs[j:k], src...)\<close>
  does to the shared array when the capacity suffices.
\<close>

definition store_bytes :: "'a list \<Rightarrow> nat \<Rightarrow> 'a list \<Rightarrow> 'a list" where
  "store_bytes xs k src = take k xs @ src @ drop (k + length src) xs"

definition HasPrefix :: "string \<Rightarrow> string \<Rightarrow> bool" where
  "HasPrefix s p = (take (length p) s = p)"

subsection \<open>\<open>encoding/hex\<close>\<close>

definition hextable :: string where
  "hextable = ''0123456789abcdef''"

fun hex_EncodeToString :: "byte list \<Rightarrow> string" where
  "hex_EncodeToString [] = []"
| "hex_EncodeToString (v # vs) =
     (hextable ! unat (drop_bit 4 v)) # (hextable ! unat (v AND 0x0f)) # hex_EncodeToString vs"

text \<open>The table \<open>reverseHexTable\<close>: the value of a hexadecimal digit of either case.\<close>

definition fromHexChar :: "char \<Rightarrow> byte option" where
  "fromHexChar c =
     (let n = (of_char c :: nat) in
      if 48 \<le> n \<and> n \<le> 57 then Some (of_nat (n - 48))
      else if 97 \<le> n \<and> n \<le> 102 then Some (of_nat (n - 87))
      else if 65 \<le> n \<and> n \<le> 70 then Some (of_nat (n - 55))
      else None)"

text \<open>
  \<open>hex.DecodeString\<close>: \<open>None\<close> stands for its two errors, an invalid byte and an odd
  length; the source only tests \<open>err != nil\<close>.
\<close>

fun hex_DecodeString :: "string \<Rightarrow> byte list option" where
  "hex_DecodeString [] = Some []"
| "hex_DecodeString [p] = None"
| "hex_DecodeString (p # q # rest) =
     (case fromHexChar p of
        None \<Rightarrow> None
      | Some a \<Rightarrow>
          (case fromHexChar q of
             None \<Rightarrow> None
           | Some b \<Rightarrow>
               (case hex_DecodeString rest of
                  None \<Rightarrow> None
                | Some bs \<Rightarrow> Some ((push_bit 4 a OR b) # bs))))"

subsection \<open>\<open>strings.TrimSpace\<close>\<close>

text \<open>
  White space is what \<open>unicode.IsSpace\<close> accepts. In the UTF-8 bytes of a Go string these
  are the six ASCII characters tab, line feed, vertical tab, form feed, carriage return
  and space, the two-byte encodings of U+0085 and U+00A0, and the three-byte encodings
  of U+1680, U+2000 to U+200A, U+2028, U+2029, U+202F, U+205F and U+3000.
\<close>

definition asciiSpace :: "char \<Rightarrow> bool" where
  "asciiSpace c = (c \<in> set [CHR 0x09, CHR 0x0A, CHR 0x0B, CHR 0x0C, CHR 0x0D, CHR 0x20])"

definition spaces2 :: "string list" where
  "spaces2 = [[CHR 0xC2, CHR 0x85], [CHR 0xC2, CHR 0xA0]]"

definition spaces3 :: "string list" where
  "spaces3 =
     [[CHR 0xE1, CHR 0x9A, CHR 0x80],
      [CHR 0xE2, CHR 0x80, CHR 0x80], [CHR 0xE2, CHR 0x80, CHR 0x81],
      [CHR 0xE2, CHR 0x80, CHR 0x82], [CHR 0xE2, CHR 0x80, CHR 0x83],
      [CHR 0xE2, CHR 0x80, CHR 0x84], [CHR 0xE2, CHR 0x80, CHR 0x85],
      [CHR 0xE2, CHR 0x80, CHR 0x86], [CHR 0xE2, CHR 0x80, CHR 0x87],
      [CHR 0xE2, CHR 0x80, CHR 0x88], [CHR 0xE2, CHR 0x80, CHR 0x89],
      [CHR 0xE2, CHR 0x80, CHR 0x8A],
      [CHR 0xE2, CHR 0x80, CHR 0xA8], [CHR 0xE2, CHR 0x80, CHR 0xA9],
      [CHR 0xE2, CHR 0x80, CHR 0xAF],
      [CHR 0xE2, CHR 0x81, CHR 0x9F],
      [CHR 0xE3, CHR 0x80, CHR 0x80]]"

text \<open>The number of bytes of the white space character a string starts with, 0 if none.\<close>

definition leadingSpace :: "string \<Rightarrow> nat" where
  "leadingSpace s =
     (case s of
        [] \<Rightarrow> 0
      | c # cs \<Rightarrow>
          if asciiSpace c then 1
          else if take 2 s \<in> set spaces2 then 2
          else if take 3 s \<in> set spaces3 then 3
          else 0)"

text \<open>The number of bytes of the white space character a string ends with, 0 if none.\<close>

definition trailingSpace :: "string \<Rightarrow> nat" where
  "trailingSpace s =
     (if s = [] then 0
      else if asciiSpace (last s) then 1
      else if drop (length s - 2) s \<in> set spaces2 then 2
      else if drop (length s - 3) s \<in> set spaces3 then 3
      else 0)"

function trimLeft :: "string \<Rightarrow> string" where
  "trimLeft s = (if leadingSpace s = 0 then s else trimLeft (drop (leadingSpace s) s))"
  by pat_completeness auto
termination
  by (relation "measure length") (auto simp: leadingSpace_def split: list.splits if_splits)

function trimRight :: "string \<Rightarrow> string" where
  "trimRight s = (if trailingSpace s = 0 then s else trimRight (take (length s - trailingSpace s) s))"
  by pat_completeness auto
termination
  by (relation "measure length") (auto simp: trailingSpace_def split: if_splits)

definition TrimSpace :: "string \<Rightarrow> string" where
  "TrimSpace s = trimRight (trimLeft s)"

subsection \<open>Package \<open>net\<close>\<close>

definition v4InV6Prefix :: "byte list" where
  "v4InV6Prefix = [0, 0, 0, 0, 0, 0, 0, 0, 0, 0, 0xff, 0xff]"

text \<open>\<open>IP.To4\<close>: \<open>None\<close> is its \<open>nil\<close>.\<close>

definition To4 :: "IP \<Rightarrow> IP option" where
  "To4 ip =
     (if length ip = 4 then Some ip
      else if length ip = 16 \<and> slice ip 0 10 = replicate 10 0 \<and> ip ! 10 = 0xff \<and> ip ! 11 = 0xff
        then Some (slice ip 12 16)
      else None)"

text \<open>
  An \<open>IPMask\<close> made by \<open>CIDRMask(ones, bits)\<close>, the only masks of the program, is kept as
  these two numbers, which \<open>IPMask.Size\<close> returns; \<open>maskByte\<close> is the byte \<open>i\<close> of that mask.
\<close>

record IPMask =
  mask_ones :: nat
  mask_bits :: nat

definition Mask_Size :: "IPMask \<Rightarrow> int \<times> int" where
  "Mask_Size m = (int (mask_ones m), int (mask_bits m))"

definition maskByte :: "nat \<Rightarrow> nat \<Rightarrow> byte" where
  "maskByte n i =
     (if n \<ge> 8 * i + 8 then 0xff
      else if n \<le> 8 * i then 0
      else NOT (drop_bit (n - 8 * i) 0xff))"

record IPNet =
  IPNet_IP :: IP
  IPNet_Mask :: IPMask

text \<open>
  \<open>dtoi\<close> of package \<open>net\<close>: the decimal number a string starts with, the number of its
  digits, and whether there is one below \<open>big = 0xFFFFFF\<close>.
\<close>

fun dtoi_loop :: "string \<Rightarrow> nat \<Rightarrow> nat \<Rightarrow> nat \<times> nat \<times> bool" where
  "dtoi_loop [] n i = (if i = 0 then (0, 0, False) else (n, i, True))"
| "dtoi_loop (c # cs) n i =
     (if 48 \<le> (of_char c :: nat) \<and> (of_char c :: nat) \<le> 57 then
        (let n' = n * 10 + (of_char c - 48) in
         if n' \<ge> 0xFFFFFF then (0xFFFFFF, i, False) else dtoi_loop cs n' (i + 1))
      else if i = 0 then (0, 0, False) else (n, i, True))"

definition dtoi :: "string \<Rightarrow> nat \<times> nat \<times> bool" where
  "dtoi s = dtoi_loop s 0 0"

text \<open>
  \<open>parseIPv4Fields\<close> of package \<open>netip\<close>, on the rest of the string, with the value and
  the number of digits of the current field and the fields read so far. A dot is refused
  at the start, at the end and after a dot: that is, with no digit before it or nothing
  after it.
\<close>

fun parseIPv4Fields :: "string \<Rightarrow> nat \<Rightarrow> nat \<Rightarrow> byte list \<Rightarrow> byte list option" where
  "parseIPv4Fields [] val digLen flds =
     (if length flds < 3 then None else Some (flds @ [of_nat val]))"
| "parseIPv4Fields (c # cs) val digLen flds =
     (if 48 \<le> (of_char c :: nat) \<and> (of_char c :: nat) \<le> 57 then
        (if digLen = 1 \<and> val = 0 then None
         else let val' = val * 10 + (of_char c - 48) in
              if val' > 255 then None else parseIPv4Fields cs val' (digLen + 1) flds)
      else if c = CHR ''.'' then
        (if digLen = 0 \<or> cs = [] then None
         else if length flds = 3 then None
         else parseIPv4Fields cs 0 0 (flds @ [of_nat val]))
      else None)"

text \<open>
  \<open>netip.ParseAddr\<close> looks for the first of the characters dot, colon and percent, and
  hands a text with a dot first to \<open>parseIPv4\<close>, which reads the whole text as four
  decimal fields. \<open>ParseAddr_dotted\<close> is that branch, and the two errors of
  \<open>ParseAddr\<close> itself (a percent first, none of the three characters). A text with a
  colon first goes to the IPv6 parser, which is outside this development: the reader
  gives \<open>None\<close> there, and it is used below only on dotted decimal text, to evaluate
  the encoder at concrete inputs.
\<close>

definition ParseAddr_dotted :: "string \<Rightarrow> byte list option" where
  "ParseAddr_dotted s =
     (case List.find (\<lambda>c. c = CHR ''.'' \<or> c = CHR '':'' \<or> c = CHR ''%'') s of
        None \<Rightarrow> None
      | Some c \<Rightarrow> if c = CHR ''.'' then parseIPv4Fields s 0 0 [] else None)"

text \<open>
  \<open>net.ParseIP\<close> on dotted decimal text: the 16-byte form of the address, \<open>None\<close> for
  \<open>nil\<close>.
\<close>

definition ParseIP_dotted :: "string \<Rightarrow> IP option" where
  "ParseIP_dotted s =
     (case ParseAddr_dotted s of None \<Rightarrow> None | Some a \<Rightarrow> Some (v4InV6Prefix @ a))"

text \<open>\<open>strings.Cut\<close> at a one-byte separator; \<open>None\<close> when it is not found.\<close>

fun Cut :: "string \<Rightarrow> char \<Rightarrow> (string \<times> string) option" where
  "Cut [] sep = None"
| "Cut (c # cs) sep =
     (if c = sep then Some ([], cs)
      else case Cut cs sep of None \<Rightarrow> None | Some (before, after) \<Rightarrow> Some (c # before, after))"

text \<open>
  \<open>net.ParseCIDR\<close> on a text whose address is in dotted decimal form: the address as
  written, in its 16-byte form, and the network, whose address is the written one with
  the mask applied.
\<close>

definition ParseCIDR_dotted :: "string \<Rightarrow> (IP \<times> IPNet) option" where
  "ParseCIDR_dotted s =
     (case Cut s CHR ''/'' of
        None \<Rightarrow> None
      | Some (addr, maskStr) \<Rightarrow>
          (case ParseAddr_dotted addr of
             None \<Rightarrow> None
           | Some a \<Rightarrow>
               (case dtoi maskStr of
                  (n, i, ok) \<Rightarrow>
                    if \<not> ok \<or> i \<noteq> length maskStr \<or> n > 32 then None
                    else Some (v4InV6Prefix @ a,
                               \<lparr>IPNet_IP = map (\<lambda>k. (a ! k) AND maskByte n k) [0, 1, 2, 3],
                                IPNet_Mask = \<lparr>mask_ones = n, mask_bits = 32\<rparr>\<rparr>))))"

subsection \<open>Decimal and hexadecimal formatting\<close>

fun decOfNat :: "nat \<Rightarrow> string" where
  "decOfNat n =
     (if n < 10 then [''0123456789'' ! n]
      else decOfNat (n div 10) @ [''0123456789'' ! (n mod 10)])"

fun hexOfNat :: "nat \<Rightarrow> string" where
  "hexOfNat n =
     (if n < 16 then [hextable ! n]
      else hexOfNat (n div 16) @ [hextable ! (n mod 16)])"

text \<open>\<open>fmt.Sprintf("%d", n)\<close>.\<close>

definition fmt_d :: "int \<Rightarrow> string" where
  "fmt_d n = (if n < 0 then CHR ''-'' # decOfNat (nat (- n)) else decOfNat (nat n))"

text \<open>\<open>fmt.Sprintf("%02x", n)\<close>: lower case, padded with zeros to two characters, sign included.\<close>

definition fmt_02x :: "int \<Rightarrow> string" where
  "fmt_02x n =
     (if n < 0 then CHR ''-'' # hexOfNat (nat (- n))
      else if n < 16 then CHR ''0'' # hexOfNat (nat n)
      else hexOfNat (nat n))"

text \<open>\<open>fmt.Sprintf("%x", b)\<close> for a byte slice: two lower-case digits for each byte.\<close>

definition fmt_x :: "byte list \<Rightarrow> string" where
  "fmt_x bs = hex_EncodeToString bs"

text \<open>\<open>net.IPv4(a, b, c, d).String()\<close>: the dotted decimal form.\<close>

definition IPv4_String :: "byte \<Rightarrow> byte \<Rightarrow> byte \<Rightarrow> byte \<Rightarrow> string" where
  "IPv4_String a b c d =
     decOfNat (unat a) @ ''.'' @ decOfNat (unat b) @ ''.'' @ decOfNat (unat c) @ ''.'' @ decOfNat (unat d)"

section \<open>The functions of \<open>main.go\<close>\<close>

text \<open>
  The conversion \<open>float64(n)\<close> of a 64-bit integer rounds to 53 significant bits, to
  the nearest value and to the even one of two nearest. Its value is an integer again:
  \<open>n\<close> itself below \<open>2 ^ 53\<close> in size, and a multiple of \<open>2 ^ k\<close> otherwise, where \<open>k\<close>
  is the number of bits beyond 53.
\<close>

fun excessBits :: "nat \<Rightarrow> nat" where
  "excessBits a = (if a < 2 ^ 53 then 0 else Suc (excessBits (a div 2)))"

definition float64_of_int :: "int \<Rightarrow> int" where
  "float64_of_int n =
     (let a = nat \<bar>n\<bar>;
          k = excessBits a;
          q = a div 2 ^ k;
          r = a mod 2 ^ k;
          q' = (if 2 * r > 2 ^ k \<or> (2 * r = 2 ^ k \<and> odd q) then q + 1 else q)
      in sgn n * int (q' * 2 ^ k))"

text \<open>
  \<open>cidrPrefixBytes\<close>: the division of a \<open>float64\<close> by 8 is exact, \<open>math.Ceil\<close> gives an
  integer, and the conversion back to \<open>int\<close> keeps it.
\<close>

definition cidrPrefixBytes :: "int \<Rightarrow> int" where
  "cidrPrefixBytes prefix =
     (if prefix \<le> 0 then 0 else \<lceil>real_of_int (float64_of_int prefix) / 8.0\<rceil>)"

definition ipToHex :: "IP \<Rightarrow> int \<Rightarrow> error + string" where
  "ipToHex ip bytes =
     (case To4 ip of
        None \<Rightarrow> Inl OnlyIPv4Supported
      | Some v4 \<Rightarrow>
          if bytes < 0 \<or> bytes > 4 then Inl InvalidBytes
          else let b = slice v4 0 (nat bytes) in Inr (hex_EncodeToString b))"

text \<open>
  \<open>buildHexString\<close>. The two parsers of package \<open>net\<close> that it calls, \<open>net.ParseCIDR\<close>
  and \<open>net.ParseIP\<close>, are its first two arguments here: what the encoder does with
  their results is stated for every parser.
\<close>

definition buildHexString ::
  "(string \<Rightarrow> (IP \<times> IPNet) option) \<Rightarrow> (string \<Rightarrow> IP option) \<Rightarrow> string \<Rightarrow> string \<Rightarrow> error + string"
where
  "buildHexString net_ParseCIDR net_ParseIP targetCIDR routeIP =
     (case net_ParseCIDR targetCIDR of
        None \<Rightarrow> Inl InvalidCIDR
      | Some (ip, ipNet) \<Rightarrow>
          let ones = fst (Mask_Size (IPNet_Mask ipNet));
              bytesNeeded = cidrPrefixBytes ones
          in case ipToHex ip bytesNeeded of
               Inl e \<Rightarrow> Inl (TargetIPError e)
             | Inr targetHex \<Rightarrow>
                 (case net_ParseIP routeIP of
                    None \<Rightarrow> Inl InvalidGateway
                  | Some r \<Rightarrow>
                      (case ipToHex r 4 of
                         Inl e \<Rightarrow> Inl (RouteIPError e)
                       | Inr rHex \<Rightarrow>
                           let prefixHex = fmt_02x ones;
                               result = ''0x'' @ prefixHex @ targetHex @ rHex
                           in Inr result)))"

text \<open>
  The loop of \<open>parseHexStream\<close>, with the cursor \<open>i\<close> and the results so far.
  \<open>append(netPart, routePart...)\<close> has the capacity to write in place, into the array of
  \<open>data\<close> right behind \<open>netPart\<close>: the model writes these four bytes.
\<close>

function parseLoop :: "byte list \<Rightarrow> nat \<Rightarrow> pair list \<Rightarrow> pair list \<times> error option" where
  "parseLoop data i results =
     (if i < length data then
        if i + 1 > length data then (results, Some TruncatedStream)
        else
          let prefixLen = uint (data ! i);
              i1 = i + 1;
              bytesNeeded = nat (cidrPrefixBytes prefixLen)
          in if i1 + bytesNeeded + 4 > length data then (results, Some TruncatedRecord)
             else
               let netPart = slice data i1 (i1 + bytesNeeded);
                   i2 = i1 + bytesNeeded;
                   routePart = slice data i2 (i2 + 4);
                   i3 = i2 + 4;
                   netIP = copy_bytes (copy_bytes (replicate 4 0) [0, 0, 0, 0]) netPart;
                   target = IPv4_String (netIP ! 0) (netIP ! 1) (netIP ! 2) (netIP ! 3)
                              @ ''/'' @ fmt_d prefixLen;
                   route = IPv4_String (routePart ! 0) (routePart ! 1) (routePart ! 2) (routePart ! 3);
                   data' = store_bytes data i2 routePart;
                   fullHex = word_of_int prefixLen # (netPart @ routePart);
                   hexStr = fmt_x fullHex
               in parseLoop data' i3
                    (results @ [\<lparr>Target = target, Route = route, Hex = ''0x'' @ hexStr, Error = ''''\<rparr>])
      else (results, None))"
  by pat_completeness auto
termination
  by (relation "measure (\<lambda>(data, i, results). length data - i)")
     (auto simp: store_bytes_def slice_def)

definition parseHexStream :: "string \<Rightarrow> pair list \<times> error option" where
  "parseHexStream hexStr =
     (let hexStr1 = TrimSpace hexStr;
          hexStr2 = (if HasPrefix hexStr1 ''0x'' \<or> HasPrefix hexStr1 ''0X''
                     then drop 2 hexStr1 else hexStr1)
      in case hex_DecodeString hexStr2 of
           None \<Rightarrow> ([], Some InvalidHex)
         | Some data \<Rightarrow> parseLoop data 0 [])"

section \<open>Notions used in the statements\<close>

text \<open>The record the loop appends for a length byte, the network bytes and the gateway bytes read.\<close>

definition recordOf :: "byte \<Rightarrow> byte list \<Rightarrow> byte list \<Rightarrow> pair" where
  "recordOf b netPart routePart =
     (let netIP = copy_bytes (replicate 4 0) netPart
      in \<lparr>Target = IPv4_String (netIP ! 0) (netIP ! 1) (netIP ! 2) (netIP ! 3) @ ''/'' @ fmt_d (uint b),
          Route = IPv4_String (routePart ! 0) (routePart ! 1) (routePart ! 2) (routePart ! 3),
          Hex = ''0x'' @ hex_EncodeToString (b # netPart @ routePart),
          Error = ''''\<rparr>)"

text \<open>The number of network bytes the loop reads after a length byte.\<close>

definition bytesNeededOf :: "byte \<Rightarrow> nat" where
  "bytesNeededOf b = nat (cidrPrefixBytes (uint b))"

text \<open>
  The wire records a byte buffer starts with: each is a length byte, the network bytes it
  asks for and four gateway bytes; the list stops where the buffer ends or a record is cut.
\<close>

fun splitRecords :: "byte list \<Rightarrow> byte list list" where
  "splitRecords [] = []"
| "splitRecords (b # rest) =
     (if length rest < bytesNeededOf b + 4 then []
      else (b # take (bytesNeededOf b + 4) rest) # splitRecords (drop (bytesNeededOf b + 4) rest))"

text \<open>The record decoded from one wire record.\<close>

definition recordOfWire :: "byte list \<Rightarrow> pair" where
  "recordOfWire c =
     recordOf (hd c) (take (bytesNeededOf (hd c)) (tl c)) (drop (bytesNeededOf (hd c)) (tl c))"

text \<open>The prefix test of \<open>parseHexStream\<close>, and the bytes its input stands for.\<close>

definition strip0x :: "string \<Rightarrow> string" where
  "strip0x s = (if HasPrefix s ''0x'' \<or> HasPrefix s ''0X'' then drop 2 s else s)"

definition blobBytes :: "string \<Rightarrow> byte list option" where
  "blobBytes s = hex_DecodeString (strip0x (TrimSpace s))"

text \<open>The bytes that the hexadecimal string of a decoded record stands for.\<close>

definition wireOf :: "pair \<Rightarrow> byte list" where
  "wireOf r = (case hex_DecodeString (drop 2 (Hex r)) of None \<Rightarrow> [] | Some bs \<Rightarrow> bs)"

section \<open>The decoding loop\<close>

declare splitRecords.simps [simp del]

declare parseLoop.simps [simp del] trimLeft.simps [simp del] trimRight.simps [simp del]
  decOfNat.simps [simp del] hexOfNat.simps [simp del]

declare excessBits.simps [simp del]

lemma float64_exact: "\<bar>n\<bar> < 2 ^ 53 \<Longrightarrow> float64_of_int n = n"
proof -
  assume a: "\<bar>n\<bar> < 2 ^ 53"
  then have "nat \<bar>n\<bar> < 2 ^ 53" by simp
  then have k: "excessBits (nat \<bar>n\<bar>) = 0" by (subst excessBits.simps) simp
  have "sgn n * \<bar>n\<bar> = n" by (simp add: mult_sgn_abs)
  then show ?thesis by (simp add: float64_of_int_def k Let_def)
qed

lemma cidrPrefixBytes_div:
  "p < 2 ^ 53 \<Longrightarrow> cidrPrefixBytes p = (if p \<le> 0 then 0 else (p + 7) div 8)"
proof -
  assume b: "p < 2 ^ 53"
  have c: "\<lceil>real_of_int p / 8\<rceil> = - ((- p) div 8)"
    using ceiling_divide_eq_div [of p 8] by simp
  show ?thesis
  proof (cases "p \<le> 0")
    case True
    then show ?thesis by (simp add: cidrPrefixBytes_def)
  next
    case False
    then have "\<bar>p\<bar> < 2 ^ 53" using b by simp
    then have "float64_of_int p = p" by (rule float64_exact)
    then show ?thesis using False c by (simp add: cidrPrefixBytes_def)
  qed
qed

lemma store_same: "k + n \<le> length xs \<Longrightarrow> store_bytes xs k (slice xs k (k + n)) = xs"
  unfolding store_bytes_def slice_def
  by (simp add: min_absorb2) (metis append_take_drop_id drop_drop add.commute)

lemma copy_zero: "copy_bytes (replicate 4 (0::byte)) [0, 0, 0, 0] = replicate 4 0"
  by (simp add: copy_bytes_def numeral_eq_Suc)

lemma parseLoop_step:
  assumes "i < length data"
  shows "parseLoop data i rs =
     (if i + 1 + bytesNeededOf (data ! i) + 4 > length data then (rs, Some TruncatedRecord)
      else parseLoop data (i + 1 + bytesNeededOf (data ! i) + 4)
             (rs @ [recordOf (data ! i)
                      (slice data (i + 1) (i + 1 + bytesNeededOf (data ! i)))
                      (slice data (i + 1 + bytesNeededOf (data ! i)) (i + 1 + bytesNeededOf (data ! i) + 4))]))"
proof (cases "i + 1 + bytesNeededOf (data ! i) + 4 > length data")
  case True
  then show ?thesis using assms
    by (subst parseLoop.simps) (simp add: bytesNeededOf_def Let_def)
next
  case False
  then have st: "store_bytes data (i + 1 + bytesNeededOf (data ! i))
       (slice data (i + 1 + bytesNeededOf (data ! i)) (i + 1 + bytesNeededOf (data ! i) + 4)) = data"
    by (intro store_same) simp
  show ?thesis using assms False st
    by (subst parseLoop.simps)
       (simp add: bytesNeededOf_def Let_def recordOf_def copy_zero fmt_x_def del: replicate.simps replicate_Suc)
qed

lemma parseLoop_end: "\<not> i < length data \<Longrightarrow> parseLoop data i rs = (rs, None)"
  by (subst parseLoop.simps) simp

lemma parseLoop_err: "snd (parseLoop data i rs) = None \<or> snd (parseLoop data i rs) = Some TruncatedRecord"
proof (induction "length data - i" arbitrary: i rs rule: less_induct)
  case less
  show ?case
  proof (cases "i < length data")
    case True
    show ?thesis
    proof (cases "i + 1 + bytesNeededOf (data ! i) + 4 > length data")
      case t: True
      then show ?thesis using True by (simp add: parseLoop_step)
    next
      case False
      then have "length data - (i + 1 + bytesNeededOf (data ! i) + 4) < length data - i" using True by simp
      from less [OF this] show ?thesis using True False by (simp add: parseLoop_step)
    qed
  next
    case False
    then show ?thesis by (simp add: parseLoop_end)
  qed
qed

lemma slice_drop: "slice (drop i xs) a b = slice xs (i + a) (i + b)"
  by (simp add: slice_def add.commute)

lemma parseLoop_short:
  "i < length data \<Longrightarrow> length data < i + 1 + bytesNeededOf (data ! i) + 4
     \<Longrightarrow> parseLoop data i rs = (rs, Some TruncatedRecord)"
  by (simp add: parseLoop_step)

lemma parseLoop_next:
  "i < length data \<Longrightarrow> i + 1 + bytesNeededOf (data ! i) + 4 \<le> length data
     \<Longrightarrow> parseLoop data i rs =
         parseLoop data (i + 1 + bytesNeededOf (data ! i) + 4)
           (rs @ [recordOf (data ! i)
                    (slice data (i + 1) (i + 1 + bytesNeededOf (data ! i)))
                    (slice data (i + 1 + bytesNeededOf (data ! i)) (i + 1 + bytesNeededOf (data ! i) + 4))])"
  by (simp add: parseLoop_step)

lemma parseLoop_drop:
  "parseLoop data i rs = (rs @ fst (parseLoop (drop i data) 0 []), snd (parseLoop (drop i data) 0 []))"
proof (induction "length data - i" arbitrary: data i rs rule: less_induct)
  case less
  show ?case
  proof (cases "i < length data")
    case False
    then show ?thesis by (simp add: parseLoop_end)
  next
    case True
    define k where "k = 1 + bytesNeededOf (data ! i) + 4"
    have hd: "drop i data ! 0 = data ! i" using True by simp
    have pos: "0 < length (drop i data)" using True by simp
    show ?thesis
    proof (cases "i + k > length data")
      case t: True
      have a: "length data < i + 1 + bytesNeededOf (data ! i) + 4" using t by (simp add: k_def)
      have b: "length (drop i data) < 0 + 1 + bytesNeededOf (drop i data ! 0) + 4"
        unfolding hd using t True by (simp add: k_def)
      show ?thesis
        unfolding parseLoop_short [OF True a] parseLoop_short [OF pos b] by simp
    next
      case f: False
      define r where "r = recordOf (data ! i) (slice data (i + 1) (i + 1 + bytesNeededOf (data ! i)))
                      (slice data (i + 1 + bytesNeededOf (data ! i)) (i + k))"
      have a: "i + 1 + bytesNeededOf (data ! i) + 4 \<le> length data" using f by (simp add: k_def)
      have b: "0 + 1 + bytesNeededOf (drop i data ! 0) + 4 \<le> length (drop i data)"
        unfolding hd using f True by (simp add: k_def)
      have ik: "i + 1 + bytesNeededOf (data ! i) + 4 = i + k" by (simp add: k_def)
      have k0: "0 + 1 + bytesNeededOf (data ! i) + 4 = k" by (simp add: k_def)
      have l: "parseLoop data i rs = parseLoop data (i + k) (rs @ [r])"
        unfolding parseLoop_next [OF True a] ik r_def ..
      have sl: "slice (drop i data) (0 + 1) (0 + 1 + bytesNeededOf (data ! i)) =
                  slice data (i + 1) (i + 1 + bytesNeededOf (data ! i))"
               "slice (drop i data) (0 + 1 + bytesNeededOf (data ! i)) k =
                  slice data (i + 1 + bytesNeededOf (data ! i)) (i + k)"
        by (simp_all add: slice_def ac_simps k_def)
      have r: "parseLoop (drop i data) 0 [] = parseLoop (drop i data) k [r]"
        unfolding parseLoop_next [OF pos b] hd k0 sl r_def by simp
      have m1: "length data - (i + k) < length data - i" using True by (simp add: k_def)
      have m2: "length (drop i data) - k < length data - i" using True by (simp add: k_def)
      have dd: "drop k (drop i data) = drop (i + k) data" by (simp add: add.commute)
      show ?thesis
        unfolding l r
        by (subst less(1) [OF m1], subst (1 2) less(1) [OF m2]) (simp del: drop_drop add: dd)
    qed
  qed
qed


lemma parse_Nil: "parseLoop [] 0 [] = ([], None)"
  by (simp add: parseLoop_end)

lemma parse_Cons_short:
  assumes "length rest < bytesNeededOf b + 4"
  shows "parseLoop (b # rest) 0 [] = ([], Some TruncatedRecord)"
proof -
  have a: "0 < length (b # rest)" by simp
  have c: "length (b # rest) < 0 + 1 + bytesNeededOf ((b # rest) ! 0) + 4" using assms by simp
  show ?thesis by (rule parseLoop_short [OF a c])
qed

lemma parse_Cons_next:
  assumes "bytesNeededOf b + 4 \<le> length rest"
  shows "parseLoop (b # rest) 0 [] =
     (recordOf b (take (bytesNeededOf b) rest) (take 4 (drop (bytesNeededOf b) rest))
        # fst (parseLoop (drop (bytesNeededOf b + 4) rest) 0 []),
      snd (parseLoop (drop (bytesNeededOf b + 4) rest) 0 []))"
proof -
  have a: "0 < length (b # rest)" by simp
  have c: "0 + 1 + bytesNeededOf ((b # rest) ! 0) + 4 \<le> length (b # rest)" using assms by simp
  have s1: "slice (b # rest) (0 + 1) (0 + 1 + bytesNeededOf ((b # rest) ! 0)) = take (bytesNeededOf b) rest"
    by (simp add: slice_def)
  have s2: "slice (b # rest) (0 + 1 + bytesNeededOf ((b # rest) ! 0)) (0 + 1 + bytesNeededOf ((b # rest) ! 0) + 4)
              = take 4 (drop (bytesNeededOf b) rest)"
    by (simp add: slice_def)
  have d: "drop (0 + 1 + bytesNeededOf b + 4) (b # rest) = drop (bytesNeededOf b + 4) rest"
    by (simp add: drop_Cons' add.commute)
  show ?thesis
    unfolding parseLoop_next [OF a c] s1 s2
    by (subst parseLoop_drop) (simp only: d nth_Cons_0 append_Nil append_Cons)
qed

lemma parse_split:
  "parseLoop data 0 [] =
     (map recordOfWire (splitRecords data),
      if concat (splitRecords data) = data then None else Some TruncatedRecord)"
proof (induction data rule: splitRecords.induct)
  case 1
  show ?case by (simp add: parse_Nil splitRecords.simps)
next
  case (2 b rest)
  show ?case
  proof (cases "length rest < bytesNeededOf b + 4")
    case True
    then show ?thesis by (simp add: parse_Cons_short splitRecords.simps)
  next
    case False
    then have le: "bytesNeededOf b + 4 \<le> length rest" by simp
    have w: "recordOfWire (b # take (bytesNeededOf b + 4) rest) =
               recordOf b (take (bytesNeededOf b) rest) (take 4 (drop (bytesNeededOf b) rest))"
      by (simp add: recordOfWire_def min_absorb1 drop_take)
    have c: "(take (bytesNeededOf b + 4) rest @ concat (splitRecords (drop (bytesNeededOf b + 4) rest)) = rest)
             = (concat (splitRecords (drop (bytesNeededOf b + 4) rest)) = drop (bytesNeededOf b + 4) rest)"
      by (metis append_take_drop_id same_append_eq)
    show ?thesis
      using False 2 [OF False]
      by (simp add: parse_Cons_next [OF le] splitRecords.simps w c)
  qed
qed

lemma hextable_digit: "k < 16 \<Longrightarrow> fromHexChar (hextable ! k) = Some (of_nat k)"
proof -
  assume "k < 16"
  then have "k = 0 \<or> k = 1 \<or> k = 2 \<or> k = 3 \<or> k = 4 \<or> k = 5 \<or> k = 6 \<or> k = 7 \<or> k = 8
      \<or> k = 9 \<or> k = 10 \<or> k = 11 \<or> k = 12 \<or> k = 13 \<or> k = 14 \<or> k = 15" by arith
  then show ?thesis
    by (elim disjE) (simp_all add: hextable_def fromHexChar_def)
qed

lemma byte_nibbles: "push_bit 4 (drop_bit 4 v) OR (v AND 0x0f) = (v :: byte)"
proof -
  have m: "(0x0f :: byte) = mask 4" by (simp add: mask_eq_exp_minus_1)
  show ?thesis unfolding m
    by (rule bit_word_eqI) (auto simp: bit_simps not_less)
qed

lemma hex_byte:
  "hex_DecodeString ((hextable ! unat (drop_bit 4 v)) # (hextable ! unat (v AND 0x0f)) # cs)
     = (case hex_DecodeString cs of None \<Rightarrow> None | Some bs \<Rightarrow> Some ((v :: byte) # bs))"
proof -
  have "unat v < 2 ^ LENGTH(8)" by (rule unsigned_less)
  then have "unat v < 256" by simp
  then have 1: "unat (drop_bit 4 v) < 16"
    by (simp add: drop_bit_eq_div unat_div)
  have "v AND 0x0f \<le> 0x0f" by (rule word_and_le1)
  then have 2: "unat (v AND 0x0f) < 16" by (simp add: word_le_nat_alt)
  show ?thesis
    by (simp add: hextable_digit [OF 1] hextable_digit [OF 2] byte_nibbles split: option.split)
qed

lemma hex_roundtrip: "hex_DecodeString (hex_EncodeToString bs) = Some bs"
  by (induction bs) (simp_all add: hex_byte del: hex_DecodeString.simps(3))


lemma parseHexStream_blob:
  "parseHexStream s =
     (case blobBytes s of None \<Rightarrow> ([], Some InvalidHex) | Some data \<Rightarrow> parseLoop data 0 [])"
  by (simp add: parseHexStream_def blobBytes_def strip0x_def Let_def)

lemma parseHexStream_split:
  "blobBytes s = Some data \<Longrightarrow>
   parseHexStream s =
     (map recordOfWire (splitRecords data),
      if concat (splitRecords data) = data then None else Some TruncatedRecord)"
  by (simp add: parseHexStream_blob parse_split)

lemma split_wellformed:
  "c \<in> set (splitRecords data) \<Longrightarrow> c \<noteq> [] \<and> length c = 1 + bytesNeededOf (hd c) + 4"
proof (induction data rule: splitRecords.induct)
  case 1
  then show ?case by (simp add: splitRecords.simps)
next
  case (2 b rest)
  show ?case
  proof (cases "length rest < bytesNeededOf b + 4")
    case True
    then show ?thesis using 2(2) by (simp add: splitRecords.simps)
  next
    case False
    then show ?thesis using 2(1) [OF False] 2(2)
      by (auto simp: splitRecords.simps min_absorb2)
  qed
qed

lemma split_prefix:
  "take (length (concat (splitRecords data))) data = concat (splitRecords data)"
proof (induction data rule: splitRecords.induct)
  case 1
  show ?case by (simp add: splitRecords.simps)
next
  case (2 b rest)
  define k where "k = bytesNeededOf b + 4"
  show ?case
  proof (cases "length rest < k")
    case True
    then show ?thesis by (simp add: splitRecords.simps k_def)
  next
    case False
    then have le: "k \<le> length rest" by simp
    define L where "L = length (concat (splitRecords (drop k rest)))"
    have sp: "splitRecords (b # rest) = (b # take k rest) # splitRecords (drop k rest)"
      using False by (simp add: splitRecords.simps k_def)
    have ih: "take L (drop k rest) = concat (splitRecords (drop k rest))"
      using 2 False by (simp add: k_def L_def)
    have len: "length (concat (splitRecords (b # rest))) = Suc (k + L)"
      unfolding sp using le by (simp add: L_def min_absorb2)
    have "take (Suc (k + L)) (b # rest) = b # take (k + L) rest" by simp
    also have "take (k + L) rest = take k rest @ take L (drop k rest)" by (simp add: take_add)
    finally have e2: "take (Suc (k + L)) (b # rest) = b # take k rest @ concat (splitRecords (drop k rest))"
      unfolding ih .
    have e1: "concat (splitRecords (b # rest)) = b # take k rest @ concat (splitRecords (drop k rest))"
      unfolding sp by simp
    show ?thesis by (simp only: len) (simp only: e2 e1)
  qed
qed

lemma wireOf_recordOfWire:
  assumes "c \<noteq> []"
  shows "wireOf (recordOfWire c) = c" and "Hex (recordOfWire c) = ''0x'' @ hex_EncodeToString c"
proof -
  have "hd c # take (bytesNeededOf (hd c)) (tl c) @ drop (bytesNeededOf (hd c)) (tl c) = c"
    using assms by simp
  then have h: "Hex (recordOfWire c) = ''0x'' @ hex_EncodeToString c"
    by (simp add: recordOfWire_def recordOf_def Let_def)
  show "Hex (recordOfWire c) = ''0x'' @ hex_EncodeToString c" by (rule h)
  show "wireOf (recordOfWire c) = c"
    unfolding wireOf_def h by (simp add: hex_roundtrip)
qed

lemma map_wireOf_split: "map wireOf (map recordOfWire (splitRecords data)) = splitRecords data"
proof -
  have "\<forall>c \<in> set (splitRecords data). wireOf (recordOfWire c) = c"
    using split_wellformed wireOf_recordOfWire(1) by blast
  then show ?thesis by (simp add: map_idI)
qed



lemma bytesNeededOf_div: "bytesNeededOf b = nat ((uint b + 7) div 8)"
proof -
  have "uint b < 2 ^ LENGTH(8)" by (rule unsigned_less)
  then have "uint b < 2 ^ 53" by simp
  then show ?thesis by (simp add: bytesNeededOf_def cidrPrefixBytes_div)
qed


lemma parse_Cons:
  "parseLoop (b # rest) 0 [] =
     (if length rest < bytesNeededOf b + 4 then ([], Some TruncatedRecord)
      else (recordOf b (take (bytesNeededOf b) rest) (take 4 (drop (bytesNeededOf b) rest))
              # fst (parseLoop (drop (bytesNeededOf b + 4) rest) 0 []),
            snd (parseLoop (drop (bytesNeededOf b + 4) rest) 0 [])))"
  using parse_Cons_short [of rest b] parse_Cons_next [of b rest] by (cases "length rest < bytesNeededOf b + 4") simp_all

lemma rec_24: "recordOf 0x18 [0xc0, 0xa8, 0] [0xc0, 0xa8, 0, 1] =
    \<lparr>Target = ''192.168.0.0/24'', Route = ''192.168.0.1'', Hex = ''0x18c0a800c0a80001'', Error = []\<rparr>"
  by code_simp

lemma rec_0: "recordOf 0 [] [0x0a, 0, 0, 1] =
    \<lparr>Target = ''0.0.0.0/0'', Route = ''10.0.0.1'', Hex = ''0x000a000001'', Error = []\<rparr>"
  by code_simp


lemma blob_two: "blobBytes ''0x18C0A800C0A80001000a000001'' =
     Some [0x18, 0xc0, 0xa8, 0, 0xc0, 0xa8, 0, 1, 0, 0x0a, 0, 0, 1]"
  by code_simp


lemma parse_two: "parseHexStream ''0x18C0A800C0A80001000a000001'' =
   ([\<lparr>Target = ''192.168.0.0/24'', Route = ''192.168.0.1'', Hex = ''0x18c0a800c0a80001'', Error = []\<rparr>,
     \<lparr>Target = ''0.0.0.0/0'', Route = ''10.0.0.1'', Hex = ''0x000a000001'', Error = []\<rparr>], None)"
  by (simp add: parseHexStream_blob blob_two parse_Cons parse_Nil bytesNeededOf_div rec_24 rec_0)

text \<open>
  C10: \<open>parseHexStream\<close> never returns the error \<open>unexpected end of data\<close>; its only
  errors are the invalid hex string and the record with not enough data.
\<close>

theorem parseHexStream_errors:
  "snd (parseHexStream s) \<noteq> Some TruncatedStream \<and>
   snd (parseHexStream s) \<in> {None, Some InvalidHex, Some TruncatedRecord}"
proof -
  define h where "h = (if HasPrefix (TrimSpace s) ''0x'' \<or> HasPrefix (TrimSpace s) ''0X''
                       then drop 2 (TrimSpace s) else TrimSpace s)"
  have eq: "parseHexStream s =
      (case hex_DecodeString h of None \<Rightarrow> ([], Some InvalidHex) | Some data \<Rightarrow> parseLoop data 0 [])"
    unfolding parseHexStream_def h_def Let_def ..
  show ?thesis
  proof (cases "hex_DecodeString h")
    case None
    then show ?thesis by (simp add: eq)
  next
    case (Some data)
    then show ?thesis using parseLoop_err [of data 0 "[]"] by (auto simp: eq)
  qed
qed

text \<open>
  C6: \<open>cidrPrefixBytes\<close> is the ceiling of an eighth of the prefix length at the boundary
  values: 0, 1, 8, 9, 24, 25 and 32 give 0, 1, 1, 2, 3, 4 and 4, and every prefix length
  that is not positive gives 0. Below \<open>2 ^ 53\<close>, where the conversion to \<open>float64\<close> is
  exact, it is that ceiling throughout.
\<close>

theorem cidrPrefixBytes_boundaries:
  "cidrPrefixBytes 0 = 0 \<and> cidrPrefixBytes 1 = 1 \<and> cidrPrefixBytes 8 = 1 \<and> cidrPrefixBytes 9 = 2
   \<and> cidrPrefixBytes 24 = 3 \<and> cidrPrefixBytes 25 = 4 \<and> cidrPrefixBytes 32 = 4
   \<and> (\<forall>p. p \<le> 0 \<longrightarrow> cidrPrefixBytes p = 0)
   \<and> (\<forall>p. 0 \<le> p \<and> p < 2 ^ 53 \<longrightarrow> cidrPrefixBytes p = \<lceil>real_of_int p / 8\<rceil>)"
proof -
  have "\<forall>p. 0 \<le> p \<and> p < 2 ^ 53 \<longrightarrow> cidrPrefixBytes p = \<lceil>real_of_int p / 8\<rceil>"
  proof (intro allI impI)
    fix p :: int assume p: "0 \<le> p \<and> p < 2 ^ 53"
    then have "float64_of_int p = p" by (intro float64_exact) simp
    then show "cidrPrefixBytes p = \<lceil>real_of_int p / 8\<rceil>"
      using p by (auto simp: cidrPrefixBytes_def)
  qed
  moreover have "\<forall>p. p \<le> 0 \<longrightarrow> cidrPrefixBytes p = 0"
    by (simp add: cidrPrefixBytes_def)
  ultimately show ?thesis by (simp add: cidrPrefixBytes_div)
qed

theorem cidrPrefixBytes_boundaries_witness:
  "(-5::int) \<le> 0 \<and> cidrPrefixBytes (-5) = 0
   \<and> (0::int) \<le> 9 \<and> (9::int) < 2 ^ 53 \<and> cidrPrefixBytes 9 = \<lceil>real_of_int 9 / 8\<rceil>"
  using cidrPrefixBytes_boundaries by simp



text \<open>
  C4: the hexadecimal string of every decoded record is \<open>0x\<close> followed by the lower-case
  encoding of the wire bytes of that record: the length byte, the network bytes as they
  were read (as many as the length byte asks for, not padded to four) and the four
  gateway bytes. Put one after the other, the wire bytes of the records are the bytes
  of the input buffer from its start, and all of them when there is no error.
\<close>

theorem record_hex_is_input_slice:
  assumes "blobBytes s = Some data" and "parseHexStream s = (recs, err)"
  shows "concat (map wireOf recs) = take (length (concat (map wireOf recs))) data
       \<and> (err = None \<longrightarrow> concat (map wireOf recs) = data)
       \<and> (\<forall>r \<in> set recs. Hex r = ''0x'' @ hex_EncodeToString (wireOf r)
             \<and> length (wireOf r) = 1 + bytesNeededOf (hd (wireOf r)) + 4)"
proof -
  have recs: "recs = map recordOfWire (splitRecords data)"
    and err: "err = (if concat (splitRecords data) = data then None else Some TruncatedRecord)"
    using assms by (simp_all add: parseHexStream_split)
  have w: "map wireOf recs = splitRecords data" unfolding recs by (rule map_wireOf_split)
  have a: "concat (map wireOf recs) = take (length (concat (map wireOf recs))) data"
    unfolding w by (rule split_prefix [symmetric])
  have b: "err = None \<longrightarrow> concat (map wireOf recs) = data"
    unfolding w err by simp
  have c: "\<forall>r \<in> set recs. Hex r = ''0x'' @ hex_EncodeToString (wireOf r)
             \<and> length (wireOf r) = 1 + bytesNeededOf (hd (wireOf r)) + 4"
  proof
    fix r assume "r \<in> set recs"
    then obtain c where c: "c \<in> set (splitRecords data)" and r: "r = recordOfWire c"
      unfolding recs by auto
    have ne: "c \<noteq> []" and len: "length c = 1 + bytesNeededOf (hd c) + 4"
      using split_wellformed [OF c] by simp_all
    show "Hex r = ''0x'' @ hex_EncodeToString (wireOf r)
             \<and> length (wireOf r) = 1 + bytesNeededOf (hd (wireOf r)) + 4"
      unfolding r wireOf_recordOfWire(1) [OF ne] using wireOf_recordOfWire(2) [OF ne] len by simp
  qed
  show ?thesis using a b c by blast
qed

theorem record_hex_is_input_slice_witness:
  "blobBytes ''0x18C0A800C0A80001000a000001'' =
       Some [0x18, 0xc0, 0xa8, 0, 0xc0, 0xa8, 0, 1, 0, 0x0a, 0, 0, 1]
   \<and> map Hex (fst (parseHexStream ''0x18C0A800C0A80001000a000001'')) =
       [''0x18c0a800c0a80001'', ''0x000a000001'']
   \<and> concat (map wireOf (fst (parseHexStream ''0x18C0A800C0A80001000a000001''))) =
       [0x18, 0xc0, 0xa8, 0, 0xc0, 0xa8, 0, 1, 0, 0x0a, 0, 0, 1]"
proof -
  have "None = (None :: error option) \<longrightarrow>
        concat (map wireOf [\<lparr>Target = ''192.168.0.0/24'', Route = ''192.168.0.1'', Hex = ''0x18c0a800c0a80001'', Error = []\<rparr>,
                            \<lparr>Target = ''0.0.0.0/0'', Route = ''10.0.0.1'', Hex = ''0x000a000001'', Error = []\<rparr>]) =
        [0x18, 0xc0, 0xa8, 0, 0xc0, 0xa8, 0, 1, 0, 0x0a, 0, 0, 1]"
    by (rule record_hex_is_input_slice [OF blob_two parse_two, THEN conjunct2, THEN conjunct1])
  then show ?thesis by (simp add: blob_two parse_two)
qed



end
